theory Spec2Isabelle
  imports Complex_Main
begin

section \<open>Geometry kernel (utils/geometry)\<close>

text \<open>
  The coordinates of a point are JavaScript numbers; they are taken as real numbers here.
  Point and triangle indices are array positions, taken as natural numbers.
\<close>

record Point3D =
  x :: real
  y :: real
  z :: real

record Triangle =
  indices :: "nat \<times> nat \<times> nat"
  deleted :: bool

record Edge =
  a :: nat
  b :: nat
  key :: string

subsection \<open>Rendering an index in a template literal\<close>

text \<open>
  \<^verbatim>\<open>`${a}`\<close> on a non-negative integer below 10^21 (every array index is) is its decimal
  representation without leading zeros.
\<close>

definition digit :: "nat \<Rightarrow> char" where
  "digit d = ''0123456789'' ! d"

fun toString :: "nat \<Rightarrow> string" where
  "toString n = (if n < 10 then [digit n] else toString (n div 10) @ [digit (n mod 10)])"

declare toString.simps [simp del]

subsection \<open>Edge keys\<close>

text \<open>
  The record fields \<open>a\<close>, \<open>b\<close>, \<open>x\<close>, \<open>y\<close>, \<open>z\<close> are constants from here on, so the
  parameters \<open>a\<close>, \<open>b\<close> of the source are written \<open>i\<close>, \<open>j\<close>.
\<close>

definition getEdgeKey :: "nat \<Rightarrow> nat \<Rightarrow> string" where
  "getEdgeKey i j =
     (if i < j then toString i @ ''-'' @ toString j else toString j @ ''-'' @ toString i)"

definition getTriangleEdges :: "Triangle \<Rightarrow> Edge list" where
  "getTriangleEdges tri =
     (case indices tri of (i0, i1, i2) \<Rightarrow>
        [\<lparr>a = i0, b = i1, key = getEdgeKey i0 i1\<rparr>,
         \<lparr>a = i1, b = i2, key = getEdgeKey i1 i2\<rparr>,
         \<lparr>a = i2, b = i0, key = getEdgeKey i2 i0\<rparr>])"

text \<open>
  \<^verbatim>\<open>triangles.map((t, i) => ...).filter(i => i >= 0)\<close>: a position is kept as itself,
  a triangle that does not qualify becomes -1 and is filtered out.
\<close>

definition trianglesWithEdge :: "Triangle list \<Rightarrow> string \<Rightarrow> int list" where
  "trianglesWithEdge ts edgeKey =
     filter (\<lambda>i. i \<ge> 0)
       (map (\<lambda>(i, t).
               if deleted t then - 1
               else if list_ex (\<lambda>e. key e = edgeKey) (getTriangleEdges t) then int i
               else - 1)
            (zip [0 ..< length ts] ts))"

section \<open>The triangulator adapter\<close>

text \<open>
  The planar triangulation is the external library class \<^verbatim>\<open>Delaunator\<close>. It is a parameter
  of the model: a function from the flat coordinate array to the flat \<^verbatim>\<open>triangles\<close> array
  (a Uint32Array), or \<open>None\<close> when the constructor throws.
\<close>

type_synonym Delaunator = "real list \<Rightarrow> nat list option"

text \<open>
  The loop \<^verbatim>\<open>for (let i = 0; i < delaunay.triangles.length; i += 3)\<close>. The library's array
  holds three entries per triangle, so positions \<open>i + 1\<close> and \<open>i + 2\<close> are in range whenever
  \<open>i\<close> is; on an array of any other length the source reads \<^verbatim>\<open>undefined\<close> there, and the
  value of \<open>!\<close> is unspecified.
\<close>

function trianglesLoop :: "nat list \<Rightarrow> nat \<Rightarrow> Triangle list" where
  "trianglesLoop tris i =
     (if i < length tris
      then \<lparr>indices = (tris ! i, tris ! (i + 1), tris ! (i + 2)), deleted = False\<rparr>
             # trianglesLoop tris (i + 3)
      else [])"
  by pat_completeness auto
termination
  by (relation "measure (\<lambda>(tris, i). length tris - i)") auto

declare trianglesLoop.simps [simp del]

definition computeDelaunay :: "Delaunator \<Rightarrow> Point3D list \<Rightarrow> Triangle list option" where
  "computeDelaunay D pts =
     (if length pts < 3 then Some []
      else let coords = concat (map (\<lambda>p. [x p, y p]) pts)
           in case D coords of
                None \<Rightarrow> None
              | Some tris \<Rightarrow> Some (trianglesLoop tris 0))"

section \<open>TinMesh (core/TinMesh)\<close>

text \<open>
  The kernel state of the class: the raw point list, the triangle list and the set of
  soft-deleted raw indices. \<open>onChange\<close> is the nullable callback; a handler is an opaque
  value of type \<open>'h\<close>, and \<open>calls\<close> records, in order, every handler invocation made so
  far. The scene objects that \<^verbatim>\<open>updateMesh\<close> rebuilds are presentation only and are not
  part of the state.
\<close>

record 'h TinMesh =
  points :: "Point3D list"
  triangles :: "Triangle list"
  deletedPoints :: "nat set"
  onChange :: "'h option"
  calls :: "'h list"

text \<open>An operation either returns or leaves by the exception of the triangulator; the
  object keeps whatever was assigned before the throw.\<close>

datatype completion = Returned | Threw

text \<open>\<^verbatim>\<open>this.onChange?.()\<close>\<close>

definition notifyChange :: "'h TinMesh \<Rightarrow> 'h TinMesh" where
  "notifyChange m = (case onChange m of None \<Rightarrow> m | Some h \<Rightarrow> m\<lparr>calls := calls m @ [h]\<rparr>)"

text \<open>\<^verbatim>\<open>this.points.filter((_, i) => !this.deletedPoints.has(i))\<close>\<close>

definition getActivePoints :: "'h TinMesh \<Rightarrow> Point3D list" where
  "getActivePoints m =
     map snd (filter (\<lambda>(i, p). i \<notin> deletedPoints m) (zip [0 ..< length (points m)] (points m)))"

definition regenerate :: "Delaunator \<Rightarrow> 'h TinMesh \<Rightarrow> completion \<times> 'h TinMesh" where
  "regenerate D m =
     (let activePoints = getActivePoints m
      in case computeDelaunay D activePoints of
           None \<Rightarrow> (Threw, m)
         | Some ts \<Rightarrow> (Returned, notifyChange (m\<lparr>triangles := ts\<rparr>)))"

definition setPoints :: "Delaunator \<Rightarrow> Point3D list \<Rightarrow> 'h TinMesh \<Rightarrow> completion \<times> 'h TinMesh" where
  "setPoints D pts m = regenerate D (m\<lparr>points := pts, deletedPoints := {}\<rparr>)"

text \<open>\<^verbatim>\<open>triIndices.forEach(i => { this.triangles[i].deleted = true })\<close>\<close>

definition deleteEdge :: "string \<Rightarrow> 'h TinMesh \<Rightarrow> 'h TinMesh" where
  "deleteEdge edgeKey m =
     (let triIndices = trianglesWithEdge (triangles m) edgeKey;
          ts = fold (\<lambda>i ts. ts[nat i := (ts ! nat i)\<lparr>deleted := True\<rparr>]) triIndices (triangles m)
      in notifyChange (m\<lparr>triangles := ts\<rparr>))"

text \<open>
  The scan of \<^verbatim>\<open>deletePointByActiveIndex\<close> over the raw indices \<open>i\<close>, for a point list of
  length \<open>n\<close>: \<open>dp\<close> is the deleted set, \<open>count\<close> the number of active points passed.
\<close>

function deletePointLoop :: "nat \<Rightarrow> int \<Rightarrow> nat set \<Rightarrow> nat \<Rightarrow> nat \<Rightarrow> nat set" where
  "deletePointLoop n activeIndex dp i count =
     (if i < n
      then if i \<notin> dp
           then if int count = activeIndex then insert i dp
                else deletePointLoop n activeIndex dp (i + 1) (count + 1)
           else deletePointLoop n activeIndex dp (i + 1) count
      else dp)"
  by pat_completeness auto
termination
  by (relation "measure (\<lambda>(n, activeIndex, dp, i, count). n - i)") auto

declare deletePointLoop.simps [simp del]

definition deletePointByActiveIndex ::
    "Delaunator \<Rightarrow> int \<Rightarrow> 'h TinMesh \<Rightarrow> completion \<times> 'h TinMesh" where
  "deletePointByActiveIndex D activeIndex m =
     (let activePoints = getActivePoints m
      in if activeIndex < 0 \<or> activeIndex \<ge> int (length activePoints) then (Returned, m)
         else regenerate D
                (m\<lparr>deletedPoints :=
                     deletePointLoop (length (points m)) activeIndex (deletedPoints m) 0 0\<rparr>))"

subsection \<open>Picking the nearest point\<close>

text \<open>
  A \<^verbatim>\<open>THREE.Vector3\<close> is the triple of its components. Its method \<^verbatim>\<open>distanceTo\<close> belongs
  to the external library and computes in double arithmetic, so it is a parameter of the
  model, as the triangulator is. What it returns for vectors with finite components is a
  finite number or, on overflow, \<^verbatim>\<open>Infinity\<close>; \<^verbatim>\<open>NaN\<close> does not arise there.
\<close>

type_synonym Vector3 = "real \<times> real \<times> real"

datatype dist = Infinity | Fin real

type_synonym DistanceTo = "Vector3 \<Rightarrow> Vector3 \<Rightarrow> dist"

text \<open>The comparison \<^verbatim>\<open><\<close> of two such numbers.\<close>

fun lessDist :: "dist \<Rightarrow> dist \<Rightarrow> bool" where
  "lessDist (Fin d) (Fin e) = (d < e)"
| "lessDist (Fin d) Infinity = True"
| "lessDist Infinity e = False"

text \<open>
  The loop of \<^verbatim>\<open>findNearestPoint\<close>; the running minimum starts at \<^verbatim>\<open>Infinity\<close> and the
  index at \<^verbatim>\<open>null\<close>. Negating a coordinate is exact.
\<close>

function nearestLoop ::
    "DistanceTo \<Rightarrow> Vector3 \<Rightarrow> Point3D list \<Rightarrow> nat \<Rightarrow> dist \<times> nat option
       \<Rightarrow> dist \<times> nat option" where
  "nearestLoop distanceTo point activePoints i (minDist, nearestIndex) =
     (if i < length activePoints
      then let p = activePoints ! i;
               v = (x p, z p, - y p);
               d = distanceTo point v
           in if lessDist d minDist
              then nearestLoop distanceTo point activePoints (i + 1) (d, Some i)
              else nearestLoop distanceTo point activePoints (i + 1) (minDist, nearestIndex)
      else (minDist, nearestIndex))"
  by pat_completeness auto
termination
  by (relation "measure (\<lambda>(distanceTo, point, activePoints, i, s). length activePoints - i)")
     auto

declare nearestLoop.simps [simp del]

definition findNearestPoint :: "DistanceTo \<Rightarrow> 'h TinMesh \<Rightarrow> Vector3 \<Rightarrow> nat option" where
  "findNearestPoint distanceTo m point =
     (let activePoints = getActivePoints m
      in case nearestLoop distanceTo point activePoints 0 (Infinity, None) of
           (minDist, nearestIndex) \<Rightarrow>
             if lessDist minDist (Fin (3 / 2)) then nearestIndex else None)"

section \<open>Reference notions of the data model\<close>

text \<open>
  The raw indices that are currently active, in ascending order: the active projection
  as a list of raw indices. Position \<open>i\<close> of this list is the raw index that occupies
  active position \<open>i\<close>.
\<close>

definition activeRawIndices :: "'h TinMesh \<Rightarrow> nat list" where
  "activeRawIndices m = filter (\<lambda>r. r \<notin> deletedPoints m) [0 ..< length (points m)]"

text \<open>
  The distance of the query point to an active point in presentation space (x, z, -y), as
  the library's \<open>distanceTo\<close> computes it.
\<close>

definition presentationDistance :: "DistanceTo \<Rightarrow> Vector3 \<Rightarrow> Point3D \<Rightarrow> dist" where
  "presentationDistance distanceTo q p = distanceTo q (x p, z p, - y p)"

text \<open>
  Position \<open>k\<close> is the first of the positions below \<open>n\<close> whose point is at minimal computed
  distance from \<open>q\<close>: no position below \<open>n\<close> is nearer, and every earlier position is
  strictly farther.
\<close>

definition firstNearest :: "DistanceTo \<Rightarrow> Vector3 \<Rightarrow> Point3D list \<Rightarrow> nat \<Rightarrow> nat \<Rightarrow> bool" where
  "firstNearest distanceTo q ap n k \<longleftrightarrow>
     k < n \<and>
     (\<forall>j < n. \<not> lessDist (presentationDistance distanceTo q (ap ! j))
                         (presentationDistance distanceTo q (ap ! k))) \<and>
     (\<forall>j < k. lessDist (presentationDistance distanceTo q (ap ! k))
                       (presentationDistance distanceTo q (ap ! j)))"

text \<open>The loop invariant of the scan after \<open>n\<close> points.\<close>

definition scanInv ::
    "DistanceTo \<Rightarrow> Vector3 \<Rightarrow> Point3D list \<Rightarrow> nat \<Rightarrow> dist \<times> nat option \<Rightarrow> bool" where
  "scanInv distanceTo q ap n s =
     (case s of
        (Infinity, None) \<Rightarrow> (\<forall>j < n. presentationDistance distanceTo q (ap ! j) = Infinity)
      | (Fin d, Some k) \<Rightarrow>
          presentationDistance distanceTo q (ap ! k) = Fin d \<and> firstNearest distanceTo q ap n k
      | _ \<Rightarrow> False)"

section \<open>Example data\<close>

text \<open>
  The square of four sample points, with a triangulator that answers two triangles sharing
  the diagonal 1-2 for four points and one triangle otherwise, and a triangulator that
  always throws. The handler of the example meshes is named by a string.
\<close>

definition square :: "Point3D list" where
  "square = [\<lparr>x = 0, y = 0, z = 0\<rparr>, \<lparr>x = 5, y = 0, z = 0\<rparr>,
             \<lparr>x = 0, y = 5, z = 0\<rparr>, \<lparr>x = 5, y = 5, z = 0\<rparr>]"

definition corner :: "Point3D list" where
  "corner = [\<lparr>x = 0, y = 0, z = 7\<rparr>, \<lparr>x = 1, y = 0, z = 8\<rparr>, \<lparr>x = 0, y = 1, z = 9\<rparr>]"

definition flatCorner :: "Point3D list" where
  "flatCorner = [\<lparr>x = 0, y = 0, z = 0\<rparr>, \<lparr>x = 1, y = 0, z = 0\<rparr>, \<lparr>x = 0, y = 1, z = 0\<rparr>]"

definition exampleDelaunator :: Delaunator where
  "exampleDelaunator coords =
     (if length coords = 8 then Some [0, 1, 2, 2, 1, 3] else Some [0, 1, 2])"

definition failingDelaunator :: Delaunator where
  "failingDelaunator coords = None"

definition squareMesh :: "string TinMesh" where
  "squareMesh =
     \<lparr>points = square,
      triangles = [\<lparr>indices = (0, 1, 2), deleted = False\<rparr>,
                   \<lparr>indices = (2, 1, 3), deleted = False\<rparr>],
      deletedPoints = {},
      onChange = Some ''render'',
      calls = []\<rparr>"

text \<open>The square after the edge 0-1 was deleted (first triangle flagged).\<close>

definition trimmedMesh :: "string TinMesh" where
  "trimmedMesh =
     squareMesh\<lparr>triangles := [\<lparr>indices = (0, 1, 2), deleted = True\<rparr>,
                               \<lparr>indices = (2, 1, 3), deleted = False\<rparr>]\<rparr>"

text \<open>The square after raw point 1 was deleted: one triangle over the raw points 0, 2, 3.\<close>

definition editedMesh :: "string TinMesh" where
  "editedMesh =
     squareMesh\<lparr>triangles := [\<lparr>indices = (0, 1, 2), deleted = False\<rparr>],
                deletedPoints := {1}\<rparr>"

text \<open>
  Four points on a line; raw point 0 sits at the origin and is deleted, so the active
  points are the raw points 1, 2, 3, at distances 3, 1, 1 from the origin.
\<close>

definition lineMesh :: "string TinMesh" where
  "lineMesh =
     \<lparr>points = [\<lparr>x = 0, y = 0, z = 0\<rparr>, \<lparr>x = 3, y = 0, z = 0\<rparr>,
                \<lparr>x = 1, y = 0, z = 0\<rparr>, \<lparr>x = - 1, y = 0, z = 0\<rparr>],
      triangles = [],
      deletedPoints = {0},
      onChange = None,
      calls = []\<rparr>"

text \<open>A single point at distance 2 from the origin.\<close>

definition farMesh :: "string TinMesh" where
  "farMesh =
     \<lparr>points = [\<lparr>x = 2, y = 0, z = 0\<rparr>],
      triangles = [],
      deletedPoints = {},
      onChange = None,
      calls = []\<rparr>"

text \<open>
  A sample instance of the library's \<open>distanceTo\<close>: the Euclidean distance without
  rounding. On the example meshes above, whose points have small integer coordinates on
  one axis, every square, sum and root is exact in double arithmetic, so this is what the
  library returns there.
\<close>

fun exactDistanceTo :: DistanceTo where
  "exactDistanceTo (x1, y1, z1) (x2, y2, z2) =
     Fin (sqrt ((x1 - x2)\<^sup>2 + (y1 - y2)\<^sup>2 + (z1 - z2)\<^sup>2))"

section \<open>Properties of the index translation, the edge marking and the scan\<close>

lemma zip_upt_nth: "zip [0 ..< length xs] xs = map (\<lambda>i. (i, xs ! i)) [0 ..< length xs]"
  by (intro nth_equalityI) simp_all

lemma getActivePoints_activeRaw:
  "getActivePoints m = map (\<lambda>r. points m ! r) (activeRawIndices m)"
  by (simp add: getActivePoints_def activeRawIndices_def zip_upt_nth filter_map comp_def)

lemma length_getActivePoints:
  "length (getActivePoints m) = length (activeRawIndices m)"
  by (simp add: getActivePoints_activeRaw)

lemma deletePointLoop_finds:
  "int count \<le> k \<Longrightarrow> nat k - count < length (filter (\<lambda>r. r \<notin> dp) [i ..< n]) \<Longrightarrow>
     deletePointLoop n k dp i count = insert (filter (\<lambda>r. r \<notin> dp) [i ..< n] ! (nat k - count)) dp"
proof (induction n k dp i count rule: deletePointLoop.induct)
  case (1 n k dp i count)
  show ?case
  proof (cases "i < n")
    case False
    with 1(4) show ?thesis by simp
  next
    case True
    then have upt: "[i ..< n] = i # [i + 1 ..< n]" by (simp add: upt_conv_Cons)
    show ?thesis
    proof (cases "i \<in> dp")
      case True
      with 1(2) [OF \<open>i < n\<close>] 1(3,4) \<open>i < n\<close> upt show ?thesis
        by (subst deletePointLoop.simps) simp
    next
      case notin: False
      show ?thesis
      proof (cases "int count = k")
        case True
        with notin \<open>i < n\<close> upt show ?thesis
          by (subst deletePointLoop.simps) simp
      next
        case False
        with 1(3) have lt: "int (count + 1) \<le> k" by simp
        from 1(4) notin upt False 1(3)
        have len: "nat k - (count + 1) < length (filter (\<lambda>r. r \<notin> dp) [i + 1 ..< n])"
          by auto
        have pos: "nat k - count = Suc (nat k - (count + 1))" using lt by linarith
        from 1(1) [OF \<open>i < n\<close> notin False lt len] notin False \<open>i < n\<close> upt pos
        show ?thesis
          by (subst deletePointLoop.simps) simp
      qed
    qed
  qed
qed

lemma deletePointLoop_valid:
  assumes "0 \<le> k" "k < int (length (activeRawIndices m))"
  shows "deletePointLoop (length (points m)) k (deletedPoints m) 0 0
           = insert (activeRawIndices m ! nat k) (deletedPoints m)"
  using deletePointLoop_finds [of 0 k "deletedPoints m" 0 "length (points m)"] assms
  by (simp add: activeRawIndices_def)

lemma activeRaw_nth:
  assumes "n < length (activeRawIndices m)"
  shows "activeRawIndices m ! n \<notin> deletedPoints m \<and> activeRawIndices m ! n < length (points m)"
proof -
  have "activeRawIndices m ! n \<in> set (activeRawIndices m)" using assms by simp
  then show ?thesis by (auto simp: activeRawIndices_def)
qed

lemma length_filter_insert:
  assumes "r \<notin> dp" "r < n"
  shows "length (filter (\<lambda>q. q \<notin> insert r dp) [0 ..< n]) + 1 = length (filter (\<lambda>q. q \<notin> dp) [0 ..< n])"
proof -
  have A: "length (filter (\<lambda>q. q \<notin> dp) [0 ..< n]) = card ({q. q \<notin> dp} \<inter> {0 ..< n})"
    by (simp add: distinct_length_filter)
  have B: "length (filter (\<lambda>q. q \<notin> insert r dp) [0 ..< n]) = card ({q. q \<notin> insert r dp} \<inter> {0 ..< n})"
    by (simp add: distinct_length_filter)
  have C: "{q. q \<notin> insert r dp} \<inter> {0 ..< n} = ({q. q \<notin> dp} \<inter> {0 ..< n}) - {r}" by auto
  have "r \<in> {q. q \<notin> dp} \<inter> {0 ..< n}" using assms by simp
  then have "card (({q. q \<notin> dp} \<inter> {0 ..< n}) - {r}) + 1 = card ({q. q \<notin> dp} \<inter> {0 ..< n})"
    by (metis Suc_eq_plus1 card_Suc_Diff1 finite_Int finite_atLeastLessThan)
  with A B C show ?thesis by simp
qed



lemma trianglesWithEdge_set:
  "set (trianglesWithEdge ts k) =
     {int p | p. p < length ts \<and> \<not> deleted (ts ! p) \<and>
                 list_ex (\<lambda>e. key e = k) (getTriangleEdges (ts ! p))}"
  by (auto simp: trianglesWithEdge_def zip_upt_nth split: if_splits)

lemma trianglesWithEdge_range:
  "j \<in> set (trianglesWithEdge ts k) \<Longrightarrow> 0 \<le> j \<and> nat j < length ts"
  by (auto simp: trianglesWithEdge_set)

lemma fold_mark_deleted:
  assumes "\<forall>j \<in> set js. 0 \<le> j"
  shows "length (fold (\<lambda>i ts. ts[nat i := (ts ! nat i)\<lparr>deleted := True\<rparr>]) js ts) = length ts \<and>
         (\<forall>p < length ts.
            fold (\<lambda>i ts. ts[nat i := (ts ! nat i)\<lparr>deleted := True\<rparr>]) js ts ! p
              = (if int p \<in> set js then (ts ! p)\<lparr>deleted := True\<rparr> else ts ! p))"
  using assms
proof (induction js arbitrary: ts)
  case Nil
  then show ?case by simp
next
  case (Cons j js)
  then have j: "0 \<le> j" and js: "\<forall>j \<in> set js. 0 \<le> j" by simp_all
  have eq: "\<And>p. int p = j \<longleftrightarrow> p = nat j" using j by auto
  define ts1 where "ts1 = ts[nat j := (ts ! nat j)\<lparr>deleted := True\<rparr>]"
  have len1: "length ts1 = length ts" by (simp add: ts1_def)
  have nth1: "ts1 ! p = (if p = nat j then (ts ! p)\<lparr>deleted := True\<rparr> else ts ! p)"
    if "p < length ts" for p
    using that by (simp add: ts1_def nth_list_update)
  have step: "fold (\<lambda>i ts. ts[nat i := (ts ! nat i)\<lparr>deleted := True\<rparr>]) (j # js) ts
      = fold (\<lambda>i ts. ts[nat i := (ts ! nat i)\<lparr>deleted := True\<rparr>]) js ts1"
    by (simp add: ts1_def)
  from Cons.IH [OF js, of ts1] len1 nth1
  show ?case unfolding step by (auto simp: eq)
qed

lemma lessDist_irrefl: "\<not> lessDist d d"
  by (cases d) simp_all

lemma lessDist_trans: "lessDist c d \<Longrightarrow> lessDist d e \<Longrightarrow> lessDist c e"
  by (cases c; cases d; cases e) simp_all

lemma not_lessDist_trans: "\<not> lessDist c d \<Longrightarrow> lessDist e d \<Longrightarrow> lessDist e c"
  by (cases c; cases d; cases e) simp_all

lemma scanInv_step_less:
  assumes inv: "scanInv dt q ap i (minDist, nearestIndex)"
    and less: "lessDist (presentationDistance dt q (ap ! i)) minDist"
  shows "scanInv dt q ap (i + 1) (presentationDistance dt q (ap ! i), Some i)"
proof -
  obtain e where e: "presentationDistance dt q (ap ! i) = Fin e"
    using less by (cases "presentationDistance dt q (ap ! i)") simp_all
  have nearer: "\<not> lessDist (presentationDistance dt q (ap ! j)) (Fin e) \<and>
                lessDist (Fin e) (presentationDistance dt q (ap ! j))" if "j < i" for j
  proof (cases minDist)
    case Infinity
    with inv that have "presentationDistance dt q (ap ! j) = Infinity"
      by (auto simp: scanInv_def split: option.splits)
    then show ?thesis by simp
  next
    case (Fin c)
    with inv obtain k where k: "presentationDistance dt q (ap ! k) = Fin c"
      "firstNearest dt q ap i k"
      by (auto simp: scanInv_def split: option.splits)
    from k that have n: "\<not> lessDist (presentationDistance dt q (ap ! j)) (Fin c)"
      by (simp add: firstNearest_def)
    from less e Fin have l: "lessDist (Fin e) (Fin c)" by simp
    from n l have "lessDist (Fin e) (presentationDistance dt q (ap ! j))"
      by (rule not_lessDist_trans)
    moreover from this have "\<not> lessDist (presentationDistance dt q (ap ! j)) (Fin e)"
      using lessDist_irrefl lessDist_trans by blast
    ultimately show ?thesis by simp
  qed
  have "firstNearest dt q ap (i + 1) i"
    unfolding firstNearest_def using nearer e by (auto simp: less_Suc_eq)
  with e show ?thesis by (simp add: scanInv_def)
qed

lemma scanInv_step_keep:
  assumes inv: "scanInv dt q ap i (minDist, nearestIndex)"
    and nless: "\<not> lessDist (presentationDistance dt q (ap ! i)) minDist"
  shows "scanInv dt q ap (i + 1) (minDist, nearestIndex)"
proof (cases minDist)
  case Infinity
  with nless have "presentationDistance dt q (ap ! i) = Infinity"
    by (cases "presentationDistance dt q (ap ! i)") simp_all
  with inv Infinity show ?thesis
    by (auto simp: scanInv_def less_Suc_eq split: option.splits)
next
  case (Fin c)
  with inv obtain k where k: "nearestIndex = Some k"
    "presentationDistance dt q (ap ! k) = Fin c" "firstNearest dt q ap i k"
    by (auto simp: scanInv_def split: option.splits)
  from k(3) nless Fin k(2) have "firstNearest dt q ap (i + 1) k"
    by (auto simp: firstNearest_def less_Suc_eq)
  with k Fin show ?thesis by (simp add: scanInv_def)
qed

lemma nearestLoop_inv:
  "i \<le> length ap \<Longrightarrow> scanInv dt q ap i s \<Longrightarrow>
     scanInv dt q ap (length ap) (nearestLoop dt q ap i s)"
proof (induction dt q ap i s rule: nearestLoop.induct)
  case (1 dt q ap i minDist nearestIndex)
  show ?case
  proof (cases "i < length ap")
    case False
    with 1(3,4) show ?thesis by (subst nearestLoop.simps) simp
  next
    case True
    define d where "d = presentationDistance dt q (ap ! i)"
    have d': "dt q (x (ap ! i), z (ap ! i), - y (ap ! i)) = d"
      by (simp add: d_def presentationDistance_def)
    show ?thesis
    proof (cases "lessDist d minDist")
      case less: True
      from 1(4) less have "scanInv dt q ap (i + 1) (d, Some i)"
        unfolding d_def by (rule scanInv_step_less)
      with 1(1) [OF True refl refl refl] less True d' show ?thesis
        by (subst nearestLoop.simps) (simp add: Let_def)
    next
      case nless: False
      from 1(4) nless have "scanInv dt q ap (i + 1) (minDist, nearestIndex)"
        unfolding d_def by (rule scanInv_step_keep)
      with 1(2) [OF True refl refl refl] nless True d' show ?thesis
        by (subst nearestLoop.simps) (simp add: Let_def)
    qed
  qed
qed

lemma exactDistanceTo_axis:
  "presentationDistance exactDistanceTo (u, 0, 0) \<lparr>x = v, y = 0, z = 0\<rparr> = Fin \<bar>u - v\<bar>"
  by (simp add: presentationDistance_def)

lemma trianglesLoop_fresh: "t \<in> set (trianglesLoop tris i) \<Longrightarrow> \<not> deleted t"
proof (induction tris i rule: trianglesLoop.induct)
  case (1 tris i)
  show ?case
  proof (cases "i < length tris")
    case True
    with 1 show ?thesis by (subst (asm) trianglesLoop.simps) auto
  next
    case False
    with 1(2) show ?thesis by (subst (asm) trianglesLoop.simps) simp
  qed
qed

lemma computeDelaunay_fresh:
  "computeDelaunay D pts = Some ts \<Longrightarrow> t \<in> set ts \<Longrightarrow> \<not> deleted t"
  by (auto simp: computeDelaunay_def Let_def trianglesLoop_fresh split: if_splits option.splits)

lemma coords_eq:
  assumes "length ps = length qs"
    and "\<forall>n < length ps. x (ps ! n) = x (qs ! n) \<and> y (ps ! n) = y (qs ! n)"
  shows "map (\<lambda>p. [x p, y p]) ps = map (\<lambda>p. [x p, y p]) qs"
  using assms by (intro nth_equalityI) simp_all

lemma fst_regenerate:
  "fst (regenerate D m) =
     (if computeDelaunay D (getActivePoints m) = None then Threw else Returned)"
  by (simp add: regenerate_def Let_def split: option.splits)

lemma snd_regenerate_Threw:
  "computeDelaunay D (getActivePoints m) = None \<Longrightarrow> snd (regenerate D m) = m"
  by (simp add: regenerate_def Let_def)

lemma snd_regenerate_Returned:
  "computeDelaunay D (getActivePoints m) = Some ts \<Longrightarrow>
     snd (regenerate D m) = notifyChange (m\<lparr>triangles := ts\<rparr>)"
  by (simp add: regenerate_def Let_def)

lemma notifyChange_fields:
  "points (notifyChange m) = points m" "triangles (notifyChange m) = triangles m"
  "deletedPoints (notifyChange m) = deletedPoints m" "onChange (notifyChange m) = onChange m"
  "calls (notifyChange m) = (case onChange m of None \<Rightarrow> calls m | Some h \<Rightarrow> calls m @ [h])"
  by (simp_all add: notifyChange_def split: option.splits)

lemma getActivePoints_cong:
  "points m = points m' \<Longrightarrow> deletedPoints m = deletedPoints m' \<Longrightarrow>
     getActivePoints m = getActivePoints m'"
  by (simp add: getActivePoints_def)

lemma getActivePoints_regenerate:
  "getActivePoints (snd (regenerate D m)) = getActivePoints m"
  by (cases "computeDelaunay D (getActivePoints m)")
     (simp_all add: snd_regenerate_Threw snd_regenerate_Returned getActivePoints_def
        notifyChange_fields)

lemma getActivePoints_fresh: "getActivePoints (m\<lparr>points := pts, deletedPoints := {}\<rparr>) = pts"
  by (simp add: getActivePoints_def zip_upt_nth filter_map comp_def map_nth)


lemma computeDelaunay_Some_of_Returned:
  "fst (regenerate D m) = Returned \<Longrightarrow> \<exists>ts. computeDelaunay D (getActivePoints m) = Some ts"
  by (cases "computeDelaunay D (getActivePoints m)") (simp_all add: fst_regenerate)

lemma regenerate_same_inputs:
  assumes "points m1 = points m2" "deletedPoints m1 = deletedPoints m2"
  shows "fst (regenerate D m1) = fst (regenerate D m2)"
    and "fst (regenerate D m1) = Returned \<Longrightarrow>
           triangles (snd (regenerate D m1)) = triangles (snd (regenerate D m2))"
proof -
  have ap: "getActivePoints m1 = getActivePoints m2"
    using assms by (rule getActivePoints_cong)
  show "fst (regenerate D m1) = fst (regenerate D m2)"
    by (simp add: fst_regenerate ap)
  assume "fst (regenerate D m1) = Returned"
  then obtain ts where ts: "computeDelaunay D (getActivePoints m1) = Some ts"
    using computeDelaunay_Some_of_Returned by blast
  from ts ap have ts2: "computeDelaunay D (getActivePoints m2) = Some ts" by simp
  show "triangles (snd (regenerate D m1)) = triangles (snd (regenerate D m2))"
    by (simp add: snd_regenerate_Returned [OF ts] snd_regenerate_Returned [OF ts2]
          notifyChange_fields)
qed

lemma regenerate_fields:
  assumes "computeDelaunay D (getActivePoints m) = Some ts"
  shows "triangles (snd (regenerate D m)) = ts" "points (snd (regenerate D m)) = points m"
    "deletedPoints (snd (regenerate D m)) = deletedPoints m"
  by (simp_all add: snd_regenerate_Returned [OF assms] notifyChange_fields)

lemma regenerate_twice:
  assumes "fst (regenerate D m) = Returned"
  shows "fst (regenerate D (snd (regenerate D m))) = Returned"
    and "triangles (snd (regenerate D (snd (regenerate D m)))) = triangles (snd (regenerate D m))"
    and "points (snd (regenerate D (snd (regenerate D m)))) = points m"
    and "deletedPoints (snd (regenerate D (snd (regenerate D m)))) = deletedPoints m"
proof -
  from assms obtain ts where ts: "computeDelaunay D (getActivePoints m) = Some ts"
    using computeDelaunay_Some_of_Returned by blast
  have ap: "getActivePoints (snd (regenerate D m)) = getActivePoints m"
    by (rule getActivePoints_regenerate)
  from ts ap have ts2: "computeDelaunay D (getActivePoints (snd (regenerate D m))) = Some ts"
    by simp
  show "fst (regenerate D (snd (regenerate D m))) = Returned"
    by (simp add: fst_regenerate ts2)
  show "triangles (snd (regenerate D (snd (regenerate D m)))) = triangles (snd (regenerate D m))"
    by (simp add: regenerate_fields(1) [OF ts2] regenerate_fields(1) [OF ts])
  show "points (snd (regenerate D (snd (regenerate D m)))) = points m"
    by (simp add: regenerate_fields(2) [OF ts2] regenerate_fields(2) [OF ts])
  show "deletedPoints (snd (regenerate D (snd (regenerate D m)))) = deletedPoints m"
    by (simp add: regenerate_fields(3) [OF ts2] regenerate_fields(3) [OF ts])
qed

lemma setPoints_Returned_iff: "fst (setPoints D P m) = Returned \<longleftrightarrow> computeDelaunay D P \<noteq> None"
  by (simp add: setPoints_def fst_regenerate getActivePoints_fresh)

lemma setPoints_fields:
  assumes "computeDelaunay D P = Some ts"
  shows "triangles (snd (setPoints D P m)) = ts" "points (snd (setPoints D P m)) = P"
    "deletedPoints (snd (setPoints D P m)) = {}"
proof -
  have c: "computeDelaunay D (getActivePoints (m\<lparr>points := P, deletedPoints := {}\<rparr>)) = Some ts"
    using assms by (simp add: getActivePoints_fresh)
  show "triangles (snd (setPoints D P m)) = ts"
    unfolding setPoints_def by (simp add: regenerate_fields(1) [OF c])
  show "points (snd (setPoints D P m)) = P"
    unfolding setPoints_def by (simp add: regenerate_fields(2) [OF c])
  show "deletedPoints (snd (setPoints D P m)) = {}"
    unfolding setPoints_def by (simp add: regenerate_fields(3) [OF c])
qed

lemma setPoints_again:
  assumes "fst (setPoints D P m) = Returned"
  shows "fst (setPoints D P m') = Returned"
    and "triangles (snd (setPoints D P m')) = triangles (snd (setPoints D P m))"
    and "points (snd (setPoints D P m')) = P"
    and "deletedPoints (snd (setPoints D P m')) = {}"
    and "\<forall>t \<in> set (triangles (snd (setPoints D P m'))). \<not> deleted t"
proof -
  from assms obtain ts where ts: "computeDelaunay D P = Some ts"
    by (auto simp: setPoints_Returned_iff)
  show "fst (setPoints D P m') = Returned" by (simp add: setPoints_Returned_iff ts)
  show "triangles (snd (setPoints D P m')) = triangles (snd (setPoints D P m))"
    by (simp add: setPoints_fields(1) [OF ts])
  show "points (snd (setPoints D P m')) = P" by (simp add: setPoints_fields(2) [OF ts])
  show "deletedPoints (snd (setPoints D P m')) = {}" by (simp add: setPoints_fields(3) [OF ts])
  show "\<forall>t \<in> set (triangles (snd (setPoints D P m'))). \<not> deleted t"
    using computeDelaunay_fresh [OF ts] by (simp add: setPoints_fields(1) [OF ts])
qed

section \<open>Decimal rendering is injective and free of the separator\<close>

lemma digit_inj: "d < 10 \<Longrightarrow> e < 10 \<Longrightarrow> digit d = digit e \<Longrightarrow> d = e"
proof -
  assume "d < 10" "e < 10" "digit d = digit e"
  have D: "d \<in> {0,1,2,3,4,5,6,7,8,9}" using \<open>d < 10\<close> by auto
  have E: "e \<in> {0,1,2,3,4,5,6,7,8,9}" using \<open>e < 10\<close> by auto
  from D E \<open>digit d = digit e\<close> show "d = e"
    by (auto simp: digit_def)
qed

lemma digit_not_dash: "d < 10 \<Longrightarrow> digit d \<noteq> CHR ''-''"
proof -
  assume "d < 10"
  then have D: "d \<in> {0,1,2,3,4,5,6,7,8,9}" by auto
  then show ?thesis by (auto simp: digit_def)
qed

lemma toString_not_Nil: "toString n \<noteq> []"
  by (subst toString.simps) simp

lemma toString_no_dash: "CHR ''-'' \<notin> set (toString n)"
proof (induction n rule: toString.induct)
  case (1 n)
  show ?case
  proof (cases "n < 10")
    case True
    then show ?thesis
      using digit_not_dash [of n] by (subst toString.simps) auto
  next
    case False
    have "n mod 10 < 10" by simp
    then have "digit (n mod 10) \<noteq> CHR ''-''" by (rule digit_not_dash)
    with False 1 show ?thesis
      by (subst toString.simps) auto
  qed
qed

lemma toString_inj: "toString m = toString n \<Longrightarrow> m = n"
proof (induction m arbitrary: n rule: toString.induct)
  case (1 m)
  show ?case
  proof (cases "m < 10")
    case m: True
    show ?thesis
    proof (cases "n < 10")
      case True
      with m 1(2) have "digit m = digit n"
        by (simp add: toString.simps [of m] toString.simps [of n])
      with m True show ?thesis by (rule digit_inj)
    next
      case False
      with m 1(2) have "[digit m] = toString (n div 10) @ [digit (n mod 10)]"
        by (simp add: toString.simps [of m] toString.simps [of n])
      then show ?thesis using toString_not_Nil [of "n div 10"] by simp
    qed
  next
    case m: False
    show ?thesis
    proof (cases "n < 10")
      case True
      with m 1(2) have "toString (m div 10) @ [digit (m mod 10)] = [digit n]"
        by (simp add: toString.simps [of m] toString.simps [of n])
      then show ?thesis using toString_not_Nil [of "m div 10"] by simp
    next
      case False
      with m 1(2) have eq: "toString (m div 10) @ [digit (m mod 10)]
                          = toString (n div 10) @ [digit (n mod 10)]"
        by (simp add: toString.simps [of m] toString.simps [of n])
      then have "toString (m div 10) = toString (n div 10)" by simp
      with m 1(1) have q: "m div 10 = n div 10" by blast
      from eq have "digit (m mod 10) = digit (n mod 10)" by simp
      then have r: "m mod 10 = n mod 10" by (intro digit_inj) simp_all
      from q r show ?thesis by (metis div_mult_mod_eq)
    qed
  qed
qed

lemma key_split:
  "toString p @ ''-'' @ toString q = toString r @ ''-'' @ toString s \<Longrightarrow> p = r \<and> q = s"
proof -
  assume "toString p @ ''-'' @ toString q = toString r @ ''-'' @ toString s"
  then have "toString p @ CHR ''-'' # toString q = toString r @ CHR ''-'' # toString s"
    by simp
  then have "toString p = toString r \<and> toString q = toString s"
    using append_Cons_eq_iff [OF toString_no_dash [of p] toString_no_dash [of q]]
      toString_no_dash [of r]
    by (metis append_Cons_eq_iff toString_no_dash)
  then show ?thesis by (auto dest: toString_inj)
qed

section \<open>Edge keys: symmetry and injectivity\<close>

text \<open>
  C5. The edge key is symmetric: for all natural numbers a and b the key of (a, b) is the
  key of (b, a). It is injective over unordered pairs: for a at most b and c at most d,
  equal keys force a = c and b = d.
\<close>

theorem getEdgeKey_symmetric_injective:
  "getEdgeKey i j = getEdgeKey j i \<and>
   (i \<le> j \<and> k \<le> l \<and> getEdgeKey i j = getEdgeKey k l \<longrightarrow> i = k \<and> j = l)"
proof
  show "getEdgeKey i j = getEdgeKey j i"
    by (cases i j rule: linorder_cases) (simp_all add: getEdgeKey_def)
next
  show "i \<le> j \<and> k \<le> l \<and> getEdgeKey i j = getEdgeKey k l \<longrightarrow> i = k \<and> j = l"
  proof
    assume H: "i \<le> j \<and> k \<le> l \<and> getEdgeKey i j = getEdgeKey k l"
    have ij: "getEdgeKey i j = toString i @ ''-'' @ toString j"
      using H by (cases "i = j") (simp_all add: getEdgeKey_def)
    have kl: "getEdgeKey k l = toString k @ ''-'' @ toString l"
      using H by (cases "k = l") (simp_all add: getEdgeKey_def)
    from H ij kl show "i = k \<and> j = l"
      using key_split [of i j k l] by simp
  qed
qed

theorem getEdgeKey_symmetric_injective_witness:
  "getEdgeKey 3 12 = getEdgeKey 12 3 \<and> getEdgeKey 12 3 = ''3-12'' \<and>
   (3::nat) \<le> 12 \<and> (2::nat) \<le> 13 \<and> getEdgeKey 3 12 \<noteq> getEdgeKey 2 13"
proof -
  have e: "getEdgeKey 12 3 = ''3-12''"
    by (simp add: getEdgeKey_def toString.simps digit_def)
  from e getEdgeKey_symmetric_injective [of 3 12 2 13]
  show ?thesis by auto
qed

section \<open>Failure of the external triangulation\<close>

text \<open>
  C1, as stated, fails for \<open>setPoints\<close>: on the edited square (raw point 1 deleted), with a
  triangulator that throws, \<open>setPoints\<close> leaves by the exception after the point list has
  been replaced and the deleted set cleared.
\<close>

theorem setPoints_failure_counterexample:
  "fst (setPoints failingDelaunator corner editedMesh) = Threw \<and>
   points (snd (setPoints failingDelaunator corner editedMesh)) \<noteq> points editedMesh \<and>
   deletedPoints (snd (setPoints failingDelaunator corner editedMesh)) \<noteq> deletedPoints editedMesh"
proof -
  have c: "computeDelaunay failingDelaunator corner = None"
    by (simp add: computeDelaunay_def failingDelaunator_def corner_def)
  have a: "computeDelaunay failingDelaunator
             (getActivePoints (editedMesh\<lparr>points := corner, deletedPoints := {}\<rparr>)) = None"
    by (simp add: getActivePoints_fresh c)
  have s: "snd (setPoints failingDelaunator corner editedMesh)
             = editedMesh\<lparr>points := corner, deletedPoints := {}\<rparr>"
    unfolding setPoints_def by (rule snd_regenerate_Threw [OF a])
  have p: "points editedMesh \<noteq> corner"
    by (simp add: editedMesh_def squareMesh_def square_def corner_def)
  have d: "deletedPoints editedMesh \<noteq> {}" by (simp add: editedMesh_def)
  have f: "fst (setPoints failingDelaunator corner editedMesh) = Threw"
    by (simp add: setPoints_Returned_iff c completion.exhaust
          fst_regenerate setPoints_def a)
  from p d f show ?thesis by (simp add: s eq_commute)
qed

text \<open>
  C1, amended. If the external triangulation throws during \<open>regenerate\<close>, the whole state
  (points, deletedPoints, triangles, and the record of notifications) is left as it was.
  If it throws during \<open>setPoints\<close>, the previous triangles are left intact and nothing is
  notified, so no partial triangulation is installed; the point list has by then been
  replaced by the new points and the deleted set cleared.
\<close>

theorem triangulation_failure_state:
  "(fst (regenerate D m) = Threw \<longrightarrow> snd (regenerate D m) = m) \<and>
   (fst (setPoints D pts m) = Threw \<longrightarrow>
      triangles (snd (setPoints D pts m)) = triangles m \<and>
      calls (snd (setPoints D pts m)) = calls m \<and>
      points (snd (setPoints D pts m)) = pts \<and>
      deletedPoints (snd (setPoints D pts m)) = {})"
  by (auto simp: setPoints_def fst_regenerate snd_regenerate_Threw split: if_splits)

theorem triangulation_failure_state_witness:
  "fst (regenerate failingDelaunator editedMesh) = Threw \<and>
   snd (regenerate failingDelaunator editedMesh) = editedMesh \<and>
   fst (setPoints failingDelaunator corner editedMesh) = Threw \<and>
   triangles (snd (setPoints failingDelaunator corner editedMesh)) = triangles editedMesh \<and>
   calls (snd (setPoints failingDelaunator corner editedMesh)) = calls editedMesh \<and>
   points (snd (setPoints failingDelaunator corner editedMesh)) = corner \<and>
   deletedPoints (snd (setPoints failingDelaunator corner editedMesh)) = {}"
proof -
  have r: "fst (regenerate failingDelaunator editedMesh) = Threw"
    by (simp add: fst_regenerate computeDelaunay_def failingDelaunator_def getActivePoints_def
          editedMesh_def squareMesh_def square_def)
  have s: "fst (setPoints failingDelaunator corner editedMesh) = Threw"
    by (simp add: setPoints_def fst_regenerate getActivePoints_fresh computeDelaunay_def
          failingDelaunator_def corner_def)
  from r s triangulation_failure_state [of failingDelaunator editedMesh corner]
  show ?thesis by simp
qed

section \<open>Deleting a point by its active index\<close>

text \<open>
  C2. For a valid active index i (0 \<le> i < number of active points), after
  \<open>deletePointByActiveIndex\<close> the raw index that occupied active position i, which was not
  deleted before, has been added to the deleted set; the active projection is exactly one
  shorter; and when the call returns (which it does exactly when the triangulation of the
  new active projection does not throw) the triangle list is the fresh triangulation of the
  new active projection, every triangle of which has deleted = false.
\<close>

theorem deletePointByActiveIndex_valid:
  assumes "0 \<le> i" and "i < int (length (getActivePoints m))"
  shows "activeRawIndices m ! nat i \<notin> deletedPoints m \<and>
         activeRawIndices m ! nat i \<in> deletedPoints (snd (deletePointByActiveIndex D i m)) \<and>
         deletedPoints (snd (deletePointByActiveIndex D i m))
           = insert (activeRawIndices m ! nat i) (deletedPoints m) \<and>
         length (getActivePoints (snd (deletePointByActiveIndex D i m))) + 1
           = length (getActivePoints m) \<and>
         (fst (deletePointByActiveIndex D i m) = Returned \<longleftrightarrow>
            computeDelaunay D (getActivePoints (snd (deletePointByActiveIndex D i m))) \<noteq> None) \<and>
         (fst (deletePointByActiveIndex D i m) = Returned \<longrightarrow>
            computeDelaunay D (getActivePoints (snd (deletePointByActiveIndex D i m)))
              = Some (triangles (snd (deletePointByActiveIndex D i m))) \<and>
            (\<forall>t \<in> set (triangles (snd (deletePointByActiveIndex D i m))). \<not> deleted t))"
proof -
  define r where "r = activeRawIndices m ! nat i"
  define m1 where "m1 = m\<lparr>deletedPoints := insert r (deletedPoints m)\<rparr>"
  from assms have i: "nat i < length (activeRawIndices m)"
    by (simp add: length_getActivePoints)
  from assms have k: "i < int (length (activeRawIndices m))"
    by (simp add: length_getActivePoints)
  have del: "deletePointByActiveIndex D i m = regenerate D m1"
    using assms deletePointLoop_valid [OF assms(1) k]
    by (simp add: deletePointByActiveIndex_def Let_def m1_def r_def)
  from activeRaw_nth [OF i] have r: "r \<notin> deletedPoints m" "r < length (points m)"
    by (simp_all add: r_def)
  have ap: "getActivePoints (snd (regenerate D m1)) = getActivePoints m1"
    by (rule getActivePoints_regenerate)
  have dp: "deletedPoints (snd (regenerate D m1)) = insert r (deletedPoints m)"
    by (cases "computeDelaunay D (getActivePoints m1)")
       (simp_all add: snd_regenerate_Threw snd_regenerate_Returned notifyChange_fields m1_def)
  have len: "length (getActivePoints m1) + 1 = length (getActivePoints m)"
    using length_filter_insert [OF r]
    by (simp add: length_getActivePoints activeRawIndices_def m1_def)
  have ret: "fst (regenerate D m1) = Returned \<longleftrightarrow> computeDelaunay D (getActivePoints m1) \<noteq> None"
    by (simp add: fst_regenerate)
  have tri: "computeDelaunay D (getActivePoints m1) = Some (triangles (snd (regenerate D m1))) \<and>
             (\<forall>t \<in> set (triangles (snd (regenerate D m1))). \<not> deleted t)"
    if "fst (regenerate D m1) = Returned"
  proof -
    from that obtain ts where ts: "computeDelaunay D (getActivePoints m1) = Some ts"
      by (auto simp: fst_regenerate split: if_splits)
    then have "triangles (snd (regenerate D m1)) = ts"
      by (simp add: snd_regenerate_Returned notifyChange_fields)
    with ts computeDelaunay_fresh [OF ts] show ?thesis by simp
  qed
  from r dp len ret tri show ?thesis
    unfolding del ap r_def [symmetric] by simp
qed

theorem deletePointByActiveIndex_valid_witness:
  "(0::int) \<le> 1 \<and> 1 < int (length (getActivePoints trimmedMesh)) \<and>
   activeRawIndices trimmedMesh ! nat 1 = 1 \<and>
   deletedPoints (snd (deletePointByActiveIndex exampleDelaunator 1 trimmedMesh)) = {1} \<and>
   length (getActivePoints (snd (deletePointByActiveIndex exampleDelaunator 1 trimmedMesh))) = 3 \<and>
   fst (deletePointByActiveIndex exampleDelaunator 1 trimmedMesh) = Returned \<and>
   triangles (snd (deletePointByActiveIndex exampleDelaunator 1 trimmedMesh))
     = [\<lparr>indices = (0, 1, 2), deleted = False\<rparr>]"
proof -
  have h: "(0::int) \<le> 1" "1 < int (length (getActivePoints trimmedMesh))"
    by (simp_all add: getActivePoints_def trimmedMesh_def squareMesh_def square_def)
  have e: "deletePointByActiveIndex exampleDelaunator 1 trimmedMesh =
      (Returned, trimmedMesh\<lparr>triangles := [\<lparr>indices = (0, 1, 2), deleted = False\<rparr>],
                             deletedPoints := {1}, calls := [''render'']\<rparr>)"
    by (simp add: deletePointByActiveIndex_def getActivePoints_def trimmedMesh_def
          squareMesh_def square_def Let_def deletePointLoop.simps regenerate_def
          computeDelaunay_def exampleDelaunator_def notifyChange_def trianglesLoop.simps)
  have r: "activeRawIndices trimmedMesh ! nat 1 = 1"
    by (simp add: activeRawIndices_def trimmedMesh_def squareMesh_def square_def)
  have l: "length (getActivePoints trimmedMesh) = 4"
    by (simp add: getActivePoints_def trimmedMesh_def squareMesh_def square_def)
  from h r deletePointByActiveIndex_valid [OF h, of exampleDelaunator]
  show ?thesis by (simp add: e l)
qed

text \<open>
  C3. For an index i with i < 0 or i at least the number of active points,
  \<open>deletePointByActiveIndex\<close> returns normally and leaves the whole state (points,
  deletedPoints, triangles) exactly as it was.
\<close>

theorem deletePointByActiveIndex_out_of_range:
  "i < 0 \<or> i \<ge> int (length (getActivePoints m)) \<Longrightarrow>
     deletePointByActiveIndex D i m = (Returned, m)"
  by (simp add: deletePointByActiveIndex_def Let_def)

theorem deletePointByActiveIndex_out_of_range_witness:
  "((- 1 :: int) < 0 \<or> - 1 \<ge> int (length (getActivePoints trimmedMesh))) \<and>
   deletePointByActiveIndex failingDelaunator (- 1) trimmedMesh = (Returned, trimmedMesh) \<and>
   ((4 :: int) < 0 \<or> 4 \<ge> int (length (getActivePoints trimmedMesh))) \<and>
   deletePointByActiveIndex failingDelaunator 4 trimmedMesh = (Returned, trimmedMesh)"
proof -
  have h1: "(- 1 :: int) < 0 \<or> - 1 \<ge> int (length (getActivePoints trimmedMesh))" by simp
  have h2: "(4 :: int) < 0 \<or> 4 \<ge> int (length (getActivePoints trimmedMesh))"
    by (simp add: getActivePoints_def trimmedMesh_def squareMesh_def square_def)
  from h1 h2 deletePointByActiveIndex_out_of_range [OF h1, of failingDelaunator]
    deletePointByActiveIndex_out_of_range [OF h2, of failingDelaunator]
  show ?thesis by simp
qed

section \<open>Deleting an edge\<close>

text \<open>
  C4. For every edge key k and every state, after \<open>deleteEdge k\<close>: every position that
  \<open>trianglesWithEdge\<close> reported for k before the call is a position of the triangle list
  and its triangle has deleted = true; the deleted flag of every other triangle, and the
  vertex indices of every triangle, are unchanged; points and deletedPoints are untouched;
  and the registered change handler is called once, whether or not k matched a triangle.
\<close>

theorem deleteEdge_marks:
  "length (triangles (deleteEdge k m)) = length (triangles m) \<and>
   (\<forall>j \<in> set (trianglesWithEdge (triangles m) k).
        0 \<le> j \<and> nat j < length (triangles m) \<and> deleted (triangles (deleteEdge k m) ! nat j)) \<and>
   (\<forall>p < length (triangles m).
        indices (triangles (deleteEdge k m) ! p) = indices (triangles m ! p) \<and>
        (int p \<notin> set (trianglesWithEdge (triangles m) k) \<longrightarrow>
           deleted (triangles (deleteEdge k m) ! p) = deleted (triangles m ! p))) \<and>
   points (deleteEdge k m) = points m \<and>
   deletedPoints (deleteEdge k m) = deletedPoints m \<and>
   calls (deleteEdge k m) = (case onChange m of None \<Rightarrow> calls m | Some h \<Rightarrow> calls m @ [h])"
proof -
  have nonneg: "\<forall>j \<in> set (trianglesWithEdge (triangles m) k). 0 \<le> j"
    by (simp add: trianglesWithEdge_range)
  note F = fold_mark_deleted [OF nonneg, of "triangles m"]
  have T: "triangles (deleteEdge k m) =
      fold (\<lambda>i ts. ts[nat i := (ts ! nat i)\<lparr>deleted := True\<rparr>])
        (trianglesWithEdge (triangles m) k) (triangles m)"
    by (simp add: deleteEdge_def Let_def notifyChange_def split: option.splits)
  have rest: "points (deleteEdge k m) = points m \<and>
      deletedPoints (deleteEdge k m) = deletedPoints m \<and>
      calls (deleteEdge k m) = (case onChange m of None \<Rightarrow> calls m | Some h \<Rightarrow> calls m @ [h])"
    by (simp add: deleteEdge_def Let_def notifyChange_def split: option.splits)
  have marked: "\<forall>j \<in> set (trianglesWithEdge (triangles m) k).
        0 \<le> j \<and> nat j < length (triangles m) \<and> deleted (triangles (deleteEdge k m) ! nat j)"
  proof
    fix j assume j: "j \<in> set (trianglesWithEdge (triangles m) k)"
    then have r: "0 \<le> j \<and> nat j < length (triangles m)" by (rule trianglesWithEdge_range)
    with j F show "0 \<le> j \<and> nat j < length (triangles m) \<and> deleted (triangles (deleteEdge k m) ! nat j)"
      unfolding T by simp
  qed
  have others: "\<forall>p < length (triangles m).
        indices (triangles (deleteEdge k m) ! p) = indices (triangles m ! p) \<and>
        (int p \<notin> set (trianglesWithEdge (triangles m) k) \<longrightarrow>
           deleted (triangles (deleteEdge k m) ! p) = deleted (triangles m ! p))"
    unfolding T using F by simp
  from F marked others rest show ?thesis unfolding T [symmetric] by blast
qed

theorem deleteEdge_marks_witness:
  "trianglesWithEdge (triangles trimmedMesh) ''1-2'' = [1] \<and>
   length (triangles (deleteEdge ''1-2'' trimmedMesh)) = 2 \<and>
   deleted (triangles (deleteEdge ''1-2'' trimmedMesh) ! 1) \<and>
   deleted (triangles (deleteEdge ''1-2'' trimmedMesh) ! 0)
     = deleted (triangles trimmedMesh ! 0) \<and>
   points (deleteEdge ''1-2'' trimmedMesh) = square \<and>
   deletedPoints (deleteEdge ''1-2'' trimmedMesh) = {} \<and>
   calls (deleteEdge ''1-2'' trimmedMesh) = [''render'']"
proof -
  have w: "trianglesWithEdge (triangles trimmedMesh) ''1-2'' = [1]"
    by (simp add: trianglesWithEdge_def trimmedMesh_def squareMesh_def getTriangleEdges_def
          getEdgeKey_def toString.simps digit_def)
  have t: "triangles trimmedMesh = [\<lparr>indices = (0, 1, 2), deleted = True\<rparr>,
                                    \<lparr>indices = (2, 1, 3), deleted = False\<rparr>]"
    "points trimmedMesh = square" "deletedPoints trimmedMesh = {}"
    "onChange trimmedMesh = Some ''render''" "calls trimmedMesh = []"
    by (simp_all add: trimmedMesh_def squareMesh_def)
  from deleteEdge_marks [of "''1-2''" trimmedMesh] w
  show ?thesis by (simp add: t)
qed

section \<open>The triangulator adapter\<close>

text \<open>
  C6. For a point sequence with fewer than three entries \<open>computeDelaunay\<close> returns the
  empty sequence whatever the external triangulator is, also for the one that throws on
  every call, so the triangulator is not invoked; and for every input, every triangle of a
  returned sequence has deleted = false.
\<close>

theorem computeDelaunay_small_and_fresh:
  "(length pts < 3 \<longrightarrow>
      computeDelaunay D pts = Some [] \<and> computeDelaunay failingDelaunator pts = Some []) \<and>
   (\<forall>ts. computeDelaunay D pts = Some ts \<longrightarrow> (\<forall>t \<in> set ts. \<not> deleted t))"
  using computeDelaunay_fresh [of D pts] by (auto simp: computeDelaunay_def)

theorem computeDelaunay_small_and_fresh_witness:
  "length (take 2 square) < 3 \<and>
   computeDelaunay exampleDelaunator (take 2 square) = Some [] \<and>
   computeDelaunay failingDelaunator (take 2 square) = Some [] \<and>
   computeDelaunay exampleDelaunator square
     = Some [\<lparr>indices = (0, 1, 2), deleted = False\<rparr>, \<lparr>indices = (2, 1, 3), deleted = False\<rparr>]"
proof -
  have h: "length (take 2 square) < 3" by simp
  have e: "computeDelaunay exampleDelaunator square
     = Some [\<lparr>indices = (0, 1, 2), deleted = False\<rparr>, \<lparr>indices = (2, 1, 3), deleted = False\<rparr>]"
    by (simp add: computeDelaunay_def exampleDelaunator_def square_def trianglesLoop.simps)
  from h e computeDelaunay_small_and_fresh [of "take 2 square" exampleDelaunator]
    computeDelaunay_small_and_fresh [of square exampleDelaunator]
  show ?thesis by simp
qed

text \<open>
  C7. The triangulation ignores z: for two point sequences of equal length that agree
  pairwise on x and y, \<open>computeDelaunay\<close> with the same (deterministic) external
  triangulator gives the same outcome, triangle for triangle.
\<close>

theorem computeDelaunay_ignores_z:
  assumes "length ps = length qs"
    and "\<forall>n < length ps. x (ps ! n) = x (qs ! n) \<and> y (ps ! n) = y (qs ! n)"
  shows "computeDelaunay D ps = computeDelaunay D qs"
  using coords_eq [OF assms] assms(1) by (simp add: computeDelaunay_def)

theorem computeDelaunay_ignores_z_witness:
  "length corner = length flatCorner \<and>
   x (corner ! 0) = x (flatCorner ! 0) \<and> y (corner ! 0) = y (flatCorner ! 0) \<and>
   x (corner ! 1) = x (flatCorner ! 1) \<and> y (corner ! 1) = y (flatCorner ! 1) \<and>
   x (corner ! 2) = x (flatCorner ! 2) \<and> y (corner ! 2) = y (flatCorner ! 2) \<and>
   corner \<noteq> flatCorner \<and>
   computeDelaunay exampleDelaunator corner = computeDelaunay exampleDelaunator flatCorner"
proof -
  have h1: "length corner = length flatCorner" by (simp add: corner_def flatCorner_def)
  have h2: "\<forall>n < length corner.
      x (corner ! n) = x (flatCorner ! n) \<and> y (corner ! n) = y (flatCorner ! n)"
    by (simp add: corner_def flatCorner_def less_Suc_eq numeral_3_eq_3)
  have d: "corner \<noteq> flatCorner" by (simp add: corner_def flatCorner_def)
  have v: "x (corner ! 0) = x (flatCorner ! 0) \<and> y (corner ! 0) = y (flatCorner ! 0) \<and>
           x (corner ! 1) = x (flatCorner ! 1) \<and> y (corner ! 1) = y (flatCorner ! 1) \<and>
           x (corner ! 2) = x (flatCorner ! 2) \<and> y (corner ! 2) = y (flatCorner ! 2)"
    by (simp add: corner_def flatCorner_def)
  from h1 v d computeDelaunay_ignores_z [OF h1 h2, of exampleDelaunator]
  show ?thesis by simp
qed

section \<open>Picking the nearest point\<close>

text \<open>
  C8, as stated, fails: the source has no maximal distance to be given, it compares with
  the fixed number 1.5. The one point of the far mesh is at distance 2 from the origin,
  which is strictly less than a maximal distance of 3, and \<open>findNearestPoint\<close> still
  returns none.
\<close>

theorem findNearestPoint_threshold_counterexample:
  "getActivePoints farMesh = [\<lparr>x = 2, y = 0, z = 0\<rparr>] \<and>
   presentationDistance exactDistanceTo (0, 0, 0) \<lparr>x = 2, y = 0, z = 0\<rparr> = Fin 2 \<and>
   lessDist (Fin 2) (Fin 3) \<and>
   findNearestPoint exactDistanceTo farMesh (0, 0, 0) = None"
proof -
  have ap: "getActivePoints farMesh = [\<lparr>x = 2, y = 0, z = 0\<rparr>]"
    by (simp add: getActivePoints_def farMesh_def)
  have d: "presentationDistance exactDistanceTo (0, 0, 0) \<lparr>x = 2, y = 0, z = 0\<rparr> = Fin 2"
    by (simp add: exactDistanceTo_axis)
  have d': "exactDistanceTo (0, 0, 0) (2, 0, 0) = Fin 2"
    using d by (simp add: presentationDistance_def)
  have "findNearestPoint exactDistanceTo farMesh (0, 0, 0) = None"
    by (simp add: findNearestPoint_def ap Let_def nearestLoop.simps d' del: exactDistanceTo.simps)
  with ap d show ?thesis by simp
qed

text \<open>
  C8, amended. \<open>findNearestPoint\<close> scans the active points in ascending active index and
  measures each with the library's \<open>distanceTo\<close> in presentation space (x, z, -y), that is,
  by the Euclidean distance as double arithmetic computes it. If it returns an active
  index k, then k is the first position at minimal computed distance (no active point is
  nearer, every earlier one is strictly farther) and that distance is strictly below the
  fixed threshold 1.5; if it returns none, no active point has a computed distance below
  1.5. There is no maximal distance for the caller to give.
\<close>

theorem findNearestPoint_first_minimum:
  "case findNearestPoint dt m q of
     Some k \<Rightarrow> firstNearest dt q (getActivePoints m) (length (getActivePoints m)) k \<and>
              lessDist (presentationDistance dt q (getActivePoints m ! k)) (Fin (3 / 2))
   | None \<Rightarrow> \<forall>j < length (getActivePoints m).
              \<not> lessDist (presentationDistance dt q (getActivePoints m ! j)) (Fin (3 / 2))"
proof -
  define ap where "ap = getActivePoints m"
  define s where "s = nearestLoop dt q ap 0 (Infinity, None)"
  have "scanInv dt q ap 0 (Infinity, None)" by (simp add: scanInv_def)
  then have inv: "scanInv dt q ap (length ap) s"
    unfolding s_def by (intro nearestLoop_inv) simp_all
  have f: "findNearestPoint dt m q =
      (if lessDist (fst s) (Fin (3 / 2)) then snd s else None)"
    by (simp add: findNearestPoint_def Let_def s_def ap_def split: prod.splits)
  show ?thesis
  proof (cases "fst s")
    case Infinity
    with inv have "\<forall>j < length ap. presentationDistance dt q (ap ! j) = Infinity"
      by (cases s) (auto simp: scanInv_def split: option.splits)
    with Infinity show ?thesis
      unfolding ap_def [symmetric] f by simp
  next
    case (Fin c)
    with inv obtain k where k: "snd s = Some k" "presentationDistance dt q (ap ! k) = Fin c"
      "firstNearest dt q ap (length ap) k"
      by (cases s) (auto simp: scanInv_def split: option.splits)
    show ?thesis
    proof (cases "c < 3 / 2")
      case True
      with Fin k show ?thesis unfolding ap_def [symmetric] f by simp
    next
      case False
      have "\<not> lessDist (presentationDistance dt q (ap ! j)) (Fin (3 / 2))"
        if "j < length ap" for j
      proof
        assume l: "lessDist (presentationDistance dt q (ap ! j)) (Fin (3 / 2))"
        from k(3) that have n: "\<not> lessDist (presentationDistance dt q (ap ! j)) (Fin c)"
          by (simp add: firstNearest_def k(2))
        from l n False show False
          by (cases "presentationDistance dt q (ap ! j)") simp_all
      qed
      with Fin False show ?thesis unfolding ap_def [symmetric] f by simp
    qed
  qed
qed

theorem findNearestPoint_first_minimum_witness:
  "findNearestPoint exactDistanceTo lineMesh (0, 0, 0) = Some 1 \<and>
   lessDist (presentationDistance exactDistanceTo (0, 0, 0) (getActivePoints lineMesh ! 1))
            (Fin (3 / 2)) \<and>
   lessDist (presentationDistance exactDistanceTo (0, 0, 0) (getActivePoints lineMesh ! 1))
            (presentationDistance exactDistanceTo (0, 0, 0) (getActivePoints lineMesh ! 0)) \<and>
   presentationDistance exactDistanceTo (0, 0, 0) (getActivePoints lineMesh ! 1)
     = presentationDistance exactDistanceTo (0, 0, 0) (getActivePoints lineMesh ! 2)"
proof -
  have ap: "getActivePoints lineMesh
      = [\<lparr>x = 3, y = 0, z = 0\<rparr>, \<lparr>x = 1, y = 0, z = 0\<rparr>, \<lparr>x = - 1, y = 0, z = 0\<rparr>]"
    by (simp add: getActivePoints_def lineMesh_def)
  have n: "findNearestPoint exactDistanceTo lineMesh (0, 0, 0) = Some 1"
    by (simp add: findNearestPoint_def ap Let_def nearestLoop.simps)
  have t: "presentationDistance exactDistanceTo (0, 0, 0) (getActivePoints lineMesh ! 1)
     = presentationDistance exactDistanceTo (0, 0, 0) (getActivePoints lineMesh ! 2)"
    by (simp add: ap exactDistanceTo_axis)
  from findNearestPoint_first_minimum [where dt = exactDistanceTo and m = lineMesh and q = "(0, 0, 0)"] n t
  show ?thesis by (simp add: firstNearest_def)
qed

section \<open>Regeneration as a function of the points and the deleted set\<close>

text \<open>
  C9. With the external triangulator a function of its input, \<open>regenerate\<close> is a function
  of (points, deletedPoints): two states that agree on both complete alike and, when they
  return, hold the same triangles; regenerating again with the state unchanged returns and
  reproduces the same triangles. \<open>setPoints P\<close> called again with the same P, from whatever
  state \<open>m'\<close> the mesh is in by then, returns with the deleted set empty, every
  triangle flagged not deleted, and the same triangles as the first call.
\<close>

theorem regenerate_function_of_points_and_deletions:
  "(points m1 = points m2 \<and> deletedPoints m1 = deletedPoints m2 \<longrightarrow>
      fst (regenerate D m1) = fst (regenerate D m2) \<and>
      (fst (regenerate D m1) = Returned \<longrightarrow>
         triangles (snd (regenerate D m1)) = triangles (snd (regenerate D m2)))) \<and>
   (fst (regenerate D m) = Returned \<longrightarrow>
      fst (regenerate D (snd (regenerate D m))) = Returned \<and>
      triangles (snd (regenerate D (snd (regenerate D m)))) = triangles (snd (regenerate D m)) \<and>
      points (snd (regenerate D (snd (regenerate D m)))) = points m \<and>
      deletedPoints (snd (regenerate D (snd (regenerate D m)))) = deletedPoints m) \<and>
   (fst (setPoints D P m) = Returned \<longrightarrow>
      fst (setPoints D P m') = Returned \<and>
      triangles (snd (setPoints D P m')) = triangles (snd (setPoints D P m)) \<and>
      points (snd (setPoints D P m')) = P \<and>
      deletedPoints (snd (setPoints D P m')) = {} \<and>
      (\<forall>t \<in> set (triangles (snd (setPoints D P m'))). \<not> deleted t))"
proof -
  have A: "points m1 = points m2 \<and> deletedPoints m1 = deletedPoints m2 \<longrightarrow>
      fst (regenerate D m1) = fst (regenerate D m2) \<and>
      (fst (regenerate D m1) = Returned \<longrightarrow>
         triangles (snd (regenerate D m1)) = triangles (snd (regenerate D m2)))"
    using regenerate_same_inputs [of m1 m2 D] by blast
  have B: "fst (regenerate D m) = Returned \<longrightarrow>
      fst (regenerate D (snd (regenerate D m))) = Returned \<and>
      triangles (snd (regenerate D (snd (regenerate D m)))) = triangles (snd (regenerate D m)) \<and>
      points (snd (regenerate D (snd (regenerate D m)))) = points m \<and>
      deletedPoints (snd (regenerate D (snd (regenerate D m)))) = deletedPoints m"
    using regenerate_twice [of D m] by blast
  have C: "fst (setPoints D P m) = Returned \<longrightarrow>
      fst (setPoints D P m') = Returned \<and>
      triangles (snd (setPoints D P m')) = triangles (snd (setPoints D P m)) \<and>
      points (snd (setPoints D P m')) = P \<and>
      deletedPoints (snd (setPoints D P m')) = {} \<and>
      (\<forall>t \<in> set (triangles (snd (setPoints D P m'))). \<not> deleted t)"
    using setPoints_again [of D P m m'] by blast
  from A B C show ?thesis by blast
qed

theorem regenerate_function_of_points_and_deletions_witness:
  "points trimmedMesh = points squareMesh \<and>
   deletedPoints trimmedMesh = deletedPoints squareMesh \<and>
   triangles trimmedMesh \<noteq> triangles squareMesh \<and>
   fst (regenerate exampleDelaunator trimmedMesh) = Returned \<and>
   triangles (snd (regenerate exampleDelaunator trimmedMesh))
     = triangles (snd (regenerate exampleDelaunator squareMesh)) \<and>
   triangles (snd (regenerate exampleDelaunator (snd (regenerate exampleDelaunator trimmedMesh))))
     = triangles (snd (regenerate exampleDelaunator trimmedMesh)) \<and>
   fst (setPoints exampleDelaunator square trimmedMesh) = Returned \<and>
   fst (setPoints exampleDelaunator square editedMesh) = Returned \<and>
   triangles (snd (setPoints exampleDelaunator square editedMesh))
     = triangles (snd (setPoints exampleDelaunator square trimmedMesh)) \<and>
   deletedPoints editedMesh = {1} \<and>
   deletedPoints (snd (setPoints exampleDelaunator square editedMesh)) = {}"
proof -
  have h1: "points trimmedMesh = points squareMesh \<and>
            deletedPoints trimmedMesh = deletedPoints squareMesh"
    by (simp add: trimmedMesh_def)
  have d: "triangles trimmedMesh \<noteq> triangles squareMesh"
    by (simp add: trimmedMesh_def squareMesh_def)
  have ap: "getActivePoints trimmedMesh = square"
    by (simp add: getActivePoints_def trimmedMesh_def squareMesh_def square_def)
  have c: "computeDelaunay exampleDelaunator square \<noteq> None"
    by (simp add: computeDelaunay_def exampleDelaunator_def square_def)
  have h2: "fst (regenerate exampleDelaunator trimmedMesh) = Returned"
    by (simp add: fst_regenerate ap c)
  have h3: "fst (setPoints exampleDelaunator square trimmedMesh) = Returned"
    by (simp add: setPoints_Returned_iff c)
  have e: "deletedPoints editedMesh = {1}" by (simp add: editedMesh_def)
  from h1 d h2 h3 e
    regenerate_function_of_points_and_deletions
      [of trimmedMesh squareMesh exampleDelaunator trimmedMesh square editedMesh]
  show ?thesis by simp
qed

section \<open>Which no-op paths notify\<close>

text \<open>
  C10. The two silent no-op paths differ in notification. \<open>deletePointByActiveIndex\<close> with
  an out-of-range index returns before \<open>regenerate\<close>: no handler call is added. \<open>deleteEdge\<close>
  with a key that matches no triangle leaves the triangles as they were and still calls
  the registered handler once.
\<close>

theorem noop_paths_notification:
  "((i < 0 \<or> i \<ge> int (length (getActivePoints m))) \<longrightarrow>
      calls (snd (deletePointByActiveIndex D i m)) = calls m) \<and>
   (trianglesWithEdge (triangles m) k = [] \<longrightarrow>
      triangles (deleteEdge k m) = triangles m \<and>
      calls (deleteEdge k m) = (case onChange m of None \<Rightarrow> calls m | Some h \<Rightarrow> calls m @ [h]))"
  by (auto simp: deletePointByActiveIndex_def deleteEdge_def Let_def notifyChange_fields)

theorem noop_paths_notification_witness:
  "((7 :: int) < 0 \<or> 7 \<ge> int (length (getActivePoints squareMesh))) \<and>
   calls (snd (deletePointByActiveIndex exampleDelaunator 7 squareMesh)) = [] \<and>
   trianglesWithEdge (triangles squareMesh) ''0-3'' = [] \<and>
   triangles (deleteEdge ''0-3'' squareMesh) = triangles squareMesh \<and>
   calls (deleteEdge ''0-3'' squareMesh) = [''render'']"
proof -
  have h1: "(7 :: int) < 0 \<or> 7 \<ge> int (length (getActivePoints squareMesh))"
    by (simp add: getActivePoints_def squareMesh_def square_def)
  have h2: "trianglesWithEdge (triangles squareMesh) ''0-3'' = []"
    by (simp add: trianglesWithEdge_def squareMesh_def getTriangleEdges_def
          getEdgeKey_def toString.simps digit_def)
  have c: "calls squareMesh = []" "onChange squareMesh = Some ''render''"
    by (simp_all add: squareMesh_def)
  from h1 h2 noop_paths_notification [of 7 squareMesh exampleDelaunator "''0-3''"]
  show ?thesis by (simp add: c)
qed

end
